theory Spec2Isabelle
  imports Main
begin

section \<open>The API context consumed by \<^verbatim>\<open>src/api/base.ts\<close>\<close>

text \<open>
  \<^verbatim>\<open>base.ts\<close> imports \<^verbatim>\<open>API_ACCESS_LEVELS\<close>, \<^verbatim>\<open>ApiContextLevel\<close>, \<^verbatim>\<open>ApiKeyLevel\<close> and
  \<^verbatim>\<open>PermitContextError\<close> from \<^verbatim>\<open>./context\<close>, and mutates \<^verbatim>\<open>config.apiContext\<close> through four
  of its methods. That module is not among the available sources; the declarations of this
  section stand in for it.
\<close>

text \<open>Modelled from the spec: the enum \<^verbatim>\<open>ApiKeyLevel\<close> of \<^verbatim>\<open>./context\<close> is missing; the
  spec gives \<open>permittedAccessLevel \<in> {WAIT_FOR_INIT, ORGANIZATION, PROJECT, ENVIRONMENT}\<close>.\<close>

datatype ApiKeyLevel =
    ApiKeyLevel_WAIT_FOR_INIT
  | ApiKeyLevel_ORGANIZATION
  | ApiKeyLevel_PROJECT
  | ApiKeyLevel_ENVIRONMENT

text \<open>Modelled from the spec: the constant \<^verbatim>\<open>API_ACCESS_LEVELS\<close> of \<^verbatim>\<open>./context\<close> is missing;
  the spec names the order ORGANIZATION < PROJECT < ENVIRONMENT, and \<^verbatim>\<open>base.ts\<close> compares
  positions in this array. Whether the array lists the levels in that order or in the
  opposite one is fixed by neither the spec nor \<^verbatim>\<open>base.ts\<close>; the elements below are one of
  the two readings, and no proof in this theory unfolds them.\<close>

definition API_ACCESS_LEVELS :: "ApiKeyLevel list" where
  "API_ACCESS_LEVELS =
     [ApiKeyLevel_ORGANIZATION, ApiKeyLevel_PROJECT, ApiKeyLevel_ENVIRONMENT]"

text \<open>Modelled from the spec: the numeric enum \<^verbatim>\<open>ApiContextLevel\<close> of \<^verbatim>\<open>./context\<close> is
  missing; the spec gives \<open>scopeLevel \<in> {WAIT_FOR_INIT, ORGANIZATION, PROJECT, ENVIRONMENT}\<close>,
  starting at \<open>WAIT_FOR_INIT\<close> and only increasing in specificity. \<^verbatim>\<open>base.ts\<close> compares members
  with \<^verbatim>\<open><\<close> and prints them through the reverse mapping, so the members are numbers;
  \<open>ApiContextLevel_value\<close> numbers them in the listed order.\<close>

datatype ApiContextLevel =
    ApiContextLevel_WAIT_FOR_INIT
  | ApiContextLevel_ORGANIZATION
  | ApiContextLevel_PROJECT
  | ApiContextLevel_ENVIRONMENT

fun ApiContextLevel_value :: "ApiContextLevel \<Rightarrow> nat" where
  "ApiContextLevel_value ApiContextLevel_WAIT_FOR_INIT = 0"
| "ApiContextLevel_value ApiContextLevel_ORGANIZATION = 1"
| "ApiContextLevel_value ApiContextLevel_PROJECT = 2"
| "ApiContextLevel_value ApiContextLevel_ENVIRONMENT = 3"

text \<open>Modelled from the spec: the class \<^verbatim>\<open>ApiContext\<close> of \<^verbatim>\<open>./context\<close> is missing; the spec
  describes it as the scope level, the permitted access level, "plus the resolved
  org/project/environment identifiers once known". The first three identifier fields hold
  what \<^verbatim>\<open>_saveApiKeyAccessibleScope\<close> receives, the last three what the level setters
  receive.\<close>

record ApiContext =
  permittedAccessLevel :: ApiKeyLevel
  contextLevel :: ApiContextLevel
  permittedOrganization :: "string option"
  permittedProject :: "string option"
  permittedEnvironment :: "string option"
  organization :: "string option"
  project :: "string option"
  environment :: "string option"

text \<open>Modelled from the spec: the constructor of \<^verbatim>\<open>ApiContext\<close> is missing; the spec says the
  scope level "starts at \<open>WAIT_FOR_INIT\<close> and is lazily resolved on first access".\<close>

definition new_ApiContext :: ApiContext where
  "new_ApiContext =
     \<lparr> permittedAccessLevel = ApiKeyLevel_WAIT_FOR_INIT,
       contextLevel = ApiContextLevel_WAIT_FOR_INIT,
       permittedOrganization = None, permittedProject = None, permittedEnvironment = None,
       organization = None, project = None, environment = None \<rparr>"

text \<open>Modelled from the spec: the method \<^verbatim>\<open>_saveApiKeyAccessibleScope\<close> of \<^verbatim>\<open>ApiContext\<close> is
  missing; the spec has the context track "the scope (organization/project/environment) and
  access level that the configured credential is authorized for". The access level recorded
  is that of the identifiers received: environment when project and environment are both
  given, project when the project is given, organization otherwise.\<close>

definition saveApiKeyAccessibleScope ::
  "string \<Rightarrow> string option \<Rightarrow> string option \<Rightarrow> ApiContext \<Rightarrow> ApiContext" where
  "saveApiKeyAccessibleScope org proj env c =
     (case proj of
        Some p \<Rightarrow>
          (case env of
             Some e \<Rightarrow>
               c\<lparr> permittedOrganization := Some org, permittedProject := Some p,
                  permittedEnvironment := Some e,
                  permittedAccessLevel := ApiKeyLevel_ENVIRONMENT \<rparr>
           | None \<Rightarrow>
               c\<lparr> permittedOrganization := Some org, permittedProject := Some p,
                  permittedEnvironment := None,
                  permittedAccessLevel := ApiKeyLevel_PROJECT \<rparr>)
      | None \<Rightarrow>
          c\<lparr> permittedOrganization := Some org, permittedProject := None,
             permittedEnvironment := None,
             permittedAccessLevel := ApiKeyLevel_ORGANIZATION \<rparr>)"

text \<open>Modelled from the spec: the three level setters of \<^verbatim>\<open>ApiContext\<close> are missing; by the
  spec's scenario ("context level is set to ORGANIZATION") each sets the context level its
  name carries, together with the identifiers it receives.\<close>

definition setOrganizationLevelContext :: "string \<Rightarrow> ApiContext \<Rightarrow> ApiContext" where
  "setOrganizationLevelContext org c =
     c\<lparr> contextLevel := ApiContextLevel_ORGANIZATION,
        organization := Some org, project := None, environment := None \<rparr>"

definition setProjectLevelContext :: "string \<Rightarrow> string \<Rightarrow> ApiContext \<Rightarrow> ApiContext" where
  "setProjectLevelContext org proj c =
     c\<lparr> contextLevel := ApiContextLevel_PROJECT,
        organization := Some org, project := Some proj, environment := None \<rparr>"

definition setEnvironmentLevelContext ::
  "string \<Rightarrow> string \<Rightarrow> string \<Rightarrow> ApiContext \<Rightarrow> ApiContext" where
  "setEnvironmentLevelContext org proj env c =
     c\<lparr> contextLevel := ApiContextLevel_ENVIRONMENT,
        organization := Some org, project := Some proj, environment := Some env \<rparr>"

section \<open>Thrown values, log lines and the remote scope endpoint\<close>

text \<open>
  The message of a \<^verbatim>\<open>PermitContextError\<close> is one of four templates of \<^verbatim>\<open>base.ts\<close>; the
  constructors keep the template and the values interpolated into it.
\<close>

datatype context_message =
    CouldNotSetLevel
  | CouldNotFetchScope
  | AccessLevelMismatch ApiKeyLevel ApiKeyLevel
  | LessSpecificContext ApiContextLevel ApiContextLevel

text \<open>
  What a \<^verbatim>\<open>try\<close> block can catch: a \<^verbatim>\<open>PermitContextError\<close>, an error for which
  \<^verbatim>\<open>axios.isAxiosError\<close> holds (with \<^verbatim>\<open>err?.response?.status\<close> and the JSON text of
  \<^verbatim>\<open>err?.response?.data\<close>), or any other thrown value.
\<close>

datatype thrown =
    PermitContextError context_message
  | AxiosError "nat option" string
  | OtherError string

fun isAxiosError :: "thrown \<Rightarrow> bool" where
  "isAxiosError (AxiosError status data) = True"
| "isAxiosError _ = False"

datatype log_line =
    Debug_fetching_scope
  | Debug_setting_environment
  | Debug_setting_project
  | Debug_setting_organization
  | Error_getApiKeyScope "nat option" string
  | Debug_loginAs nat string
  | Error_loginAs "nat option" string string

text \<open>The body of the scope endpoint's response: \<^verbatim>\<open>undefined\<close> and \<^verbatim>\<open>null\<close> are \<open>None\<close>.\<close>

record ApiKeyScopeRead =
  organization_id :: "string option"
  project_id :: "string option"
  environment_id :: "string option"

text \<open>
  The remote endpoint behind \<^verbatim>\<open>scopeApi.getApiKeyScope()\<close>: the outcome of the request with
  a given sequence number, either a rejection or a response body.
\<close>

type_synonym scope_api = "nat \<Rightarrow> thrown + ApiKeyScopeRead"

text \<open>
  The state a \<^verbatim>\<open>BasePermitApi\<close> works on: \<^verbatim>\<open>config.apiContext\<close>, the lines written to
  \<^verbatim>\<open>logger\<close>, and the number of \<^verbatim>\<open>getApiKeyScope\<close> requests issued so far.
\<close>

record sdk =
  apiContext :: ApiContext
  logger :: "log_line list"
  scopeRequests :: nat

definition new_sdk :: sdk where
  "new_sdk = \<lparr> apiContext = new_ApiContext, logger = [], scopeRequests = 0 \<rparr>"

definition log :: "log_line \<Rightarrow> sdk \<Rightarrow> sdk" where
  "log l s = s\<lparr> logger := logger s @ [l] \<rparr>"

section \<open>\<^verbatim>\<open>BasePermitApi\<close> (\<^verbatim>\<open>src/api/base.ts\<close>)\<close>

text \<open>JavaScript's \<^verbatim>\<open>Array.prototype.indexOf\<close>: the first position, or \<open>-1\<close>.\<close>

fun indexOf_from :: "'a list \<Rightarrow> 'a \<Rightarrow> int \<Rightarrow> int" where
  "indexOf_from [] x i = - 1"
| "indexOf_from (y # ys) x i = (if y = x then i else indexOf_from ys x (i + 1))"

definition indexOf :: "'a list \<Rightarrow> 'a \<Rightarrow> int" where
  "indexOf xs x = indexOf_from xs x 0"

text \<open>
  \<^verbatim>\<open>setContextFromApiKey\<close> up to its \<^verbatim>\<open>await\<close>: the debug line is written and the request
  is issued.
\<close>

definition setContextFromApiKey_request :: "sdk \<Rightarrow> sdk" where
  "setContextFromApiKey_request s =
     (log Debug_fetching_scope s)\<lparr> scopeRequests := scopeRequests s + 1 \<rparr>"

text \<open>The rest of the \<^verbatim>\<open>try\<close> block, once the response has arrived (lines 55 to 89).\<close>

definition setContextFromApiKey_try :: "ApiKeyScopeRead \<Rightarrow> sdk \<Rightarrow> (thrown + unit) \<times> sdk" where
  "setContextFromApiKey_try r s =
     (case organization_id r of
        Some org \<Rightarrow>
          (let s1 = s\<lparr> apiContext :=
                       saveApiKeyAccessibleScope org (project_id r) (environment_id r)
                         (apiContext s) \<rparr>
           in case project_id r of
                Some proj \<Rightarrow>
                  (case environment_id r of
                     Some env \<Rightarrow>
                       (let s2 = log Debug_setting_environment s1
                        in (Inr (), s2\<lparr> apiContext :=
                                       setEnvironmentLevelContext org proj env (apiContext s2) \<rparr>))
                   | None \<Rightarrow>
                       (let s2 = log Debug_setting_project s1
                        in (Inr (), s2\<lparr> apiContext :=
                                       setProjectLevelContext org proj (apiContext s2) \<rparr>)))
              | None \<Rightarrow>
                  (let s2 = log Debug_setting_organization s1
                   in (Inr (), s2\<lparr> apiContext :=
                                  setOrganizationLevelContext org (apiContext s2) \<rparr>)))
      | None \<Rightarrow> (Inl (PermitContextError CouldNotSetLevel), s))"

text \<open>The \<^verbatim>\<open>catch\<close> block (lines 90 to 101).\<close>

definition setContextFromApiKey_catch :: "thrown \<Rightarrow> sdk \<Rightarrow> (thrown + unit) \<times> sdk" where
  "setContextFromApiKey_catch err s =
     (let s1 = (if isAxiosError err
                then (case err of
                        AxiosError status data \<Rightarrow> log (Error_getApiKeyScope status data) s
                      | _ \<Rightarrow> s)
                else s)
      in (Inl (PermitContextError CouldNotFetchScope), s1))"

text \<open>\<^verbatim>\<open>setContextFromApiKey\<close> from the point where the awaited request settles.\<close>

definition setContextFromApiKey_resume ::
  "thrown + ApiKeyScopeRead \<Rightarrow> sdk \<Rightarrow> (thrown + unit) \<times> sdk" where
  "setContextFromApiKey_resume outcome s =
     (case outcome of
        Inl err \<Rightarrow> setContextFromApiKey_catch err s
      | Inr r \<Rightarrow>
          (case setContextFromApiKey_try r s of
             (Inl err, s') \<Rightarrow> setContextFromApiKey_catch err s'
           | (Inr u, s') \<Rightarrow> (Inr u, s')))"

definition setContextFromApiKey :: "scope_api \<Rightarrow> sdk \<Rightarrow> (thrown + unit) \<times> sdk" where
  "setContextFromApiKey api s =
     setContextFromApiKey_resume (api (scopeRequests s)) (setContextFromApiKey_request s)"

text \<open>The comparison of \<^verbatim>\<open>ensureAccessLevel\<close> (lines 119 to 129).\<close>

definition ensureAccessLevel_compare :: "ApiKeyLevel \<Rightarrow> sdk \<Rightarrow> (thrown + unit) \<times> sdk" where
  "ensureAccessLevel_compare requiredAccessLevel s =
     (if requiredAccessLevel \<noteq> permittedAccessLevel (apiContext s)
      then (if indexOf API_ACCESS_LEVELS requiredAccessLevel
                 < indexOf API_ACCESS_LEVELS (permittedAccessLevel (apiContext s))
            then (Inl (PermitContextError
                        (AccessLevelMismatch requiredAccessLevel
                           (permittedAccessLevel (apiContext s)))), s)
            else (Inr (), s))
      else (Inr (), s))"

definition ensureAccessLevel :: "scope_api \<Rightarrow> ApiKeyLevel \<Rightarrow> sdk \<Rightarrow> (thrown + unit) \<times> sdk" where
  "ensureAccessLevel api requiredAccessLevel s =
     (if contextLevel (apiContext s) = ApiContextLevel_WAIT_FOR_INIT
         \<or> permittedAccessLevel (apiContext s) = ApiKeyLevel_WAIT_FOR_INIT
      then (case setContextFromApiKey api s of
              (Inl err, s') \<Rightarrow> (Inl err, s')
            | (Inr u, s') \<Rightarrow> ensureAccessLevel_compare requiredAccessLevel s')
      else ensureAccessLevel_compare requiredAccessLevel s)"

text \<open>The comparison of \<^verbatim>\<open>ensureContext\<close> (lines 146 to 156).\<close>

definition ensureContext_compare :: "ApiContextLevel \<Rightarrow> sdk \<Rightarrow> (thrown + unit) \<times> sdk" where
  "ensureContext_compare requiredContext s =
     (if ApiContextLevel_value (contextLevel (apiContext s)) < ApiContextLevel_value requiredContext
         \<or> contextLevel (apiContext s) = ApiContextLevel_WAIT_FOR_INIT
      then (Inl (PermitContextError
                  (LessSpecificContext requiredContext (contextLevel (apiContext s)))), s)
      else (Inr (), s))"

definition ensureContext :: "scope_api \<Rightarrow> ApiContextLevel \<Rightarrow> sdk \<Rightarrow> (thrown + unit) \<times> sdk" where
  "ensureContext api requiredContext s =
     (if contextLevel (apiContext s) = ApiContextLevel_WAIT_FOR_INIT
         \<or> permittedAccessLevel (apiContext s) = ApiKeyLevel_WAIT_FOR_INIT
      then (case setContextFromApiKey api s of
              (Inl err, s') \<Rightarrow> (Inl err, s')
            | (Inr u, s') \<Rightarrow> ensureContext_compare requiredContext s')
      else ensureContext_compare requiredContext s)"

section \<open>Sequences of guard calls\<close>

datatype guard_call =
    EnsureAccessLevel ApiKeyLevel
  | EnsureContext ApiContextLevel

fun call_guard :: "scope_api \<Rightarrow> guard_call \<Rightarrow> sdk \<Rightarrow> (thrown + unit) \<times> sdk" where
  "call_guard api (EnsureAccessLevel requiredAccessLevel) s =
     ensureAccessLevel api requiredAccessLevel s"
| "call_guard api (EnsureContext requiredContext) s = ensureContext api requiredContext s"

text \<open>
  A sequential execution: each call is awaited, and its rejection caught by the caller,
  before the next call is made.
\<close>

fun run_guards :: "scope_api \<Rightarrow> guard_call list \<Rightarrow> sdk \<Rightarrow> sdk" where
  "run_guards api [] s = s"
| "run_guards api (g # gs) s = run_guards api gs (snd (call_guard api g s))"

text \<open>The condition under which both guards call \<^verbatim>\<open>setContextFromApiKey\<close>.\<close>

definition unresolved :: "sdk \<Rightarrow> bool" where
  "unresolved s =
     (contextLevel (apiContext s) = ApiContextLevel_WAIT_FOR_INIT
      \<or> permittedAccessLevel (apiContext s) = ApiKeyLevel_WAIT_FOR_INIT)"

text \<open>
  A lookup is successful when it resolves the scope: the request is answered and the answer
  carries \<^verbatim>\<open>organization_id\<close>. \<open>successfulLookups api n\<close> counts them among the first \<open>n\<close>
  requests.
\<close>

definition resolves :: "thrown + ApiKeyScopeRead \<Rightarrow> bool" where
  "resolves outcome =
     (case outcome of Inl err \<Rightarrow> False | Inr r \<Rightarrow> organization_id r \<noteq> None)"

definition successfulLookups :: "scope_api \<Rightarrow> nat \<Rightarrow> nat" where
  "successfulLookups api n = length (filter (\<lambda>i. resolves (api i)) [0..<n])"

text \<open>Endpoints and states used as concrete inputs.\<close>

definition failing_api :: scope_api where
  "failing_api n = Inl (AxiosError (Some 401) ''{}'')"

definition organization_only :: ApiKeyScopeRead where
  "organization_only =
     \<lparr> organization_id = Some ''org'', project_id = None, environment_id = None \<rparr>"

definition organization_api :: scope_api where
  "organization_api n = Inr organization_only"

definition organization_environment_api :: scope_api where
  "organization_environment_api n =
     Inr \<lparr> organization_id = Some ''org'', project_id = None, environment_id = Some ''env'' \<rparr>"

definition environment_api :: scope_api where
  "environment_api n =
     Inr \<lparr> organization_id = Some ''org'', project_id = Some ''proj'',
           environment_id = Some ''env'' \<rparr>"

definition mixed_api :: scope_api where
  "mixed_api n =
     (if n = 0 then Inr organization_only
      else Inr \<lparr> organization_id = Some ''org'', project_id = Some ''proj'',
                 environment_id = Some ''env'' \<rparr>)"

definition flaky_api :: scope_api where
  "flaky_api n = (if n = 0 then Inl (OtherError ''ECONNRESET'') else Inr organization_only)"

section \<open>Guard calls in flight at the same time\<close>

text \<open>
  An \<^verbatim>\<open>async\<close> method runs without interruption from one \<^verbatim>\<open>await\<close> to the next. A guard
  call that finds the scope resolved has no \<^verbatim>\<open>await\<close> to wait at and settles at once.
  Otherwise it calls \<^verbatim>\<open>setContextFromApiKey\<close>, which issues the request and is suspended at
  \<^verbatim>\<open>await this.scopeApi.getApiKeyScope()\<close> (line 53), while the guard is suspended at
  \<^verbatim>\<open>await this.setContextFromApiKey()\<close> (lines 116 and 143). When the answer to its request
  arrives, \<^verbatim>\<open>setContextFromApiKey\<close> runs to its end and settles its promise; the guard
  resumes in a later step, throws what the promise was rejected with or else compares the
  levels it finds in the context then.
\<close>

datatype task =
    NotStarted guard_call
  | AwaitingScope guard_call nat
  | Resuming guard_call "thrown + unit"
  | Settled "thrown + unit"

fun compare_guard :: "guard_call \<Rightarrow> sdk \<Rightarrow> (thrown + unit) \<times> sdk" where
  "compare_guard (EnsureAccessLevel requiredAccessLevel) s =
     ensureAccessLevel_compare requiredAccessLevel s"
| "compare_guard (EnsureContext requiredContext) s = ensureContext_compare requiredContext s"

fun step_task :: "scope_api \<Rightarrow> task \<Rightarrow> sdk \<Rightarrow> task \<times> sdk" where
  "step_task api (NotStarted g) s =
     (if contextLevel (apiContext s) = ApiContextLevel_WAIT_FOR_INIT
         \<or> permittedAccessLevel (apiContext s) = ApiKeyLevel_WAIT_FOR_INIT
      then (AwaitingScope g (scopeRequests s), setContextFromApiKey_request s)
      else (Settled (fst (compare_guard g s)), snd (compare_guard g s)))"
| "step_task api (AwaitingScope g n) s =
     (case setContextFromApiKey_resume (api n) s of (r, s') \<Rightarrow> (Resuming g r, s'))"
| "step_task api (Resuming g r) s =
     (case r of
        Inl err \<Rightarrow> (Settled (Inl err), s)
      | Inr u \<Rightarrow> (Settled (fst (compare_guard g s)), snd (compare_guard g s)))"
| "step_task api (Settled r) s = (Settled r, s)"

record system =
  shared :: sdk
  tasks :: "task list"

definition spawn :: "guard_call list \<Rightarrow> sdk \<Rightarrow> system" where
  "spawn calls s = \<lparr> shared = s, tasks = map NotStarted calls \<rparr>"

definition step :: "scope_api \<Rightarrow> nat \<Rightarrow> system \<Rightarrow> system" where
  "step api i sys =
     (if i < length (tasks sys)
      then (case step_task api (tasks sys ! i) (shared sys) of
              (t', s') \<Rightarrow> \<lparr> shared = s', tasks = (tasks sys)[i := t'] \<rparr>)
      else sys)"

text \<open>A schedule names, in order, the task that runs next.\<close>

fun run_schedule :: "scope_api \<Rightarrow> nat list \<Rightarrow> system \<Rightarrow> system" where
  "run_schedule api [] sys = sys"
| "run_schedule api (i # sched) sys = run_schedule api sched (step api i sys)"

section \<open>\<^verbatim>\<open>AuthorizonSDK.init\<close> (\<^verbatim>\<open>src/index.ts\<close>)\<close>

text \<open>
  Node's \<^verbatim>\<open>EventEmitter\<close>, as far as \<^verbatim>\<open>init\<close> uses it: the registered listeners in order,
  each with its event name and whether it was registered by \<^verbatim>\<open>once\<close>. \<^verbatim>\<open>emit\<close> calls the
  listeners of the event in order and drops the \<^verbatim>\<open>once\<close> ones.
\<close>

type_synonym EventEmitter = "(string \<times> nat \<times> bool) list"


definition EventEmitter_on :: "string \<Rightarrow> nat \<Rightarrow> EventEmitter \<Rightarrow> EventEmitter" where
  "EventEmitter_on event listener em = em @ [(event, listener, False)]"

definition EventEmitter_once :: "string \<Rightarrow> nat \<Rightarrow> EventEmitter \<Rightarrow> EventEmitter" where
  "EventEmitter_once event listener em = em @ [(event, listener, True)]"

definition EventEmitter_emit :: "string \<Rightarrow> EventEmitter \<Rightarrow> nat list \<times> EventEmitter" where
  "EventEmitter_emit event em =
     (map (\<lambda>(e, l, once). l) (filter (\<lambda>(e, l, once). e = event) em),
      filter (\<lambda>(e, l, once). \<not> (e = event \<and> once)) em)"

text \<open>
  The returned client, as far as events go: the emitter its \<^verbatim>\<open>on\<close> and \<^verbatim>\<open>once\<close> are bound
  to, whether the holder has been handed that emitter, the events the SDK has emitted so
  far, and the listeners invoked so far.
\<close>

record client =
  events :: EventEmitter
  holder_has_emitter :: bool
  emitted :: "string list"
  invoked :: "(string \<times> nat) list"


text \<open>
  What a holder of the client can do. \<^verbatim>\<open>on\<close> and \<^verbatim>\<open>once\<close> are \<^verbatim>\<open>events.on.bind(events)\<close> and
  \<^verbatim>\<open>events.once.bind(events)\<close>: they register the listener and return the emitter itself, as
  \<^verbatim>\<open>IEventSubscriber\<close> declares. With the emitter in hand the holder can call its \<^verbatim>\<open>emit\<close>.
  None of the other exposed methods was given the emitter.
\<close>

datatype client_call =
    On string nat
  | Once string nat
  | Emit string
  | OtherMethod string

fun client_step :: "client_call \<Rightarrow> client \<Rightarrow> client" where
  "client_step (On event listener) c =
     c\<lparr> events := EventEmitter_on event listener (events c), holder_has_emitter := True \<rparr>"
| "client_step (Once event listener) c =
     c\<lparr> events := EventEmitter_once event listener (events c), holder_has_emitter := True \<rparr>"
| "client_step (Emit event) c =
     (if holder_has_emitter c
      then (case EventEmitter_emit event (events c) of
              (called, events1) \<Rightarrow>
                c\<lparr> events := events1,
                   invoked := invoked c @ map (\<lambda>l. (event, l)) called \<rparr>)
      else c)"
| "client_step (OtherMethod name) c = c"


section \<open>\<^verbatim>\<open>ElementsClient.loginAs\<close>\<close>

datatype json =
    JUndefined
  | JNull
  | JBool bool
  | JNumber int
  | JString string
  | JObject "(string \<times> json) list"

text \<open>An object is a map from property names; reading a missing property gives \<^verbatim>\<open>undefined\<close>.\<close>

type_synonym object = "string \<rightharpoonup> json"

definition get_property :: "object \<Rightarrow> string \<Rightarrow> json" where
  "get_property obj k = (case obj k of None \<Rightarrow> JUndefined | Some v \<Rightarrow> v)"

record AxiosResponse =
  response_status :: nat
  response_data :: object

text \<open>The remote endpoint behind \<^verbatim>\<open>authApi.elementsLoginAs\<close>, by \<^verbatim>\<open>user_id\<close> and \<^verbatim>\<open>tenant_id\<close>.\<close>

type_synonym auth_api = "string \<Rightarrow> string \<Rightarrow> thrown + AxiosResponse"

definition loginAs ::
  "auth_api \<Rightarrow> string \<Rightarrow> string \<Rightarrow> log_line list \<Rightarrow> (thrown + object) \<times> log_line list" where
  "loginAs authApi userId tenantId lg =
     (case authApi userId tenantId of
        Inr response \<Rightarrow>
          (let lg1 = lg @ [Debug_loginAs (response_status response) userId];
               res = (response_data response)
                       (''content'' \<mapsto>
                          JObject [(''url'', get_property (response_data response) ''redirect_url'')])
           in (Inr res, lg1))
      | Inl err \<Rightarrow>
          (Inl err,
           if isAxiosError err
           then (case err of
                   AxiosError status data \<Rightarrow> lg @ [Error_loginAs status userId data]
                 | _ \<Rightarrow> lg)
           else lg))"

definition login_ok_api :: auth_api where
  "login_ok_api userId tenantId =
     Inr \<lparr> response_status = 200,
           response_data = [''redirect_url'' \<mapsto> JString ''https://x'', ''token'' \<mapsto> JString ''t''] \<rparr>"

definition login_failing_api :: auth_api where
  "login_failing_api userId tenantId = Inl (AxiosError (Some 404) ''not found'')"

section \<open>Vocabulary of the properties\<close>

text \<open>A call that ends by throwing a \<^verbatim>\<open>PermitContextError\<close>.\<close>

fun throws_ContextError :: "thrown + unit \<Rightarrow> bool" where
  "throws_ContextError (Inl (PermitContextError m)) = True"
| "throws_ContextError _ = False"

text \<open>The number of leading identifiers present in a response, taking them in the order
  organization, project, environment.\<close>

definition present_prefix :: "ApiKeyScopeRead \<Rightarrow> nat" where
  "present_prefix r =
     length (takeWhile (\<lambda>i. i \<noteq> None) [organization_id r, project_id r, environment_id r])"


text \<open>A task that has run its first step, and so will issue no request any more.\<close>

fun started :: "task \<Rightarrow> bool" where
  "started (NotStarted g) = False"
| "started _ = True"

text \<open>The tasks of callers that each await a request of their own, numbered from \<open>n\<close>.\<close>

definition awaiting :: "guard_call list \<Rightarrow> nat \<Rightarrow> task list" where
  "awaiting calls n = map (\<lambda>(g, i). AwaitingScope g i) (zip calls [n..<n + length calls])"


section \<open>Facts about context resolution\<close>

lemma setContextFromApiKey_rejected:
  assumes "api (scopeRequests s) = Inl err"
  shows "fst (setContextFromApiKey api s) = Inl (PermitContextError CouldNotFetchScope)"
    and "apiContext (snd (setContextFromApiKey api s)) = apiContext s"
    and "scopeRequests (snd (setContextFromApiKey api s)) = scopeRequests s + 1"
  using assms
  by (simp_all add: setContextFromApiKey_def setContextFromApiKey_resume_def
      setContextFromApiKey_catch_def setContextFromApiKey_request_def log_def Let_def
      split: thrown.splits)

lemma setContextFromApiKey_no_organization:
  assumes "api (scopeRequests s) = Inr r" and "organization_id r = None"
  shows "fst (setContextFromApiKey api s) = Inl (PermitContextError CouldNotFetchScope)"
    and "apiContext (snd (setContextFromApiKey api s)) = apiContext s"
    and "scopeRequests (snd (setContextFromApiKey api s)) = scopeRequests s + 1"
  using assms
  by (simp_all add: setContextFromApiKey_def setContextFromApiKey_resume_def
      setContextFromApiKey_try_def
      setContextFromApiKey_catch_def setContextFromApiKey_request_def log_def Let_def)

lemma setContextFromApiKey_organization:
  assumes "api (scopeRequests s) = Inr r" and "organization_id r = Some org"
  shows "fst (setContextFromApiKey api s) = Inr ()"
    and "contextLevel (apiContext (snd (setContextFromApiKey api s))) =
          (case project_id r of
             None \<Rightarrow> ApiContextLevel_ORGANIZATION
           | Some p \<Rightarrow> (case environment_id r of
                          None \<Rightarrow> ApiContextLevel_PROJECT
                        | Some e \<Rightarrow> ApiContextLevel_ENVIRONMENT))"
    and "permittedAccessLevel (apiContext (snd (setContextFromApiKey api s))) =
          (case project_id r of
             None \<Rightarrow> ApiKeyLevel_ORGANIZATION
           | Some p \<Rightarrow> (case environment_id r of
                          None \<Rightarrow> ApiKeyLevel_PROJECT
                        | Some e \<Rightarrow> ApiKeyLevel_ENVIRONMENT))"
    and "scopeRequests (snd (setContextFromApiKey api s)) = scopeRequests s + 1"
  using assms
  by (simp_all add: setContextFromApiKey_def setContextFromApiKey_resume_def
      setContextFromApiKey_try_def saveApiKeyAccessibleScope_def
      setOrganizationLevelContext_def setProjectLevelContext_def setEnvironmentLevelContext_def
      setContextFromApiKey_request_def log_def Let_def
      split: option.splits)

lemma setContextFromApiKey_outcomes:
  obtains (failed) "fst (setContextFromApiKey api s) = Inl (PermitContextError CouldNotFetchScope)"
      "apiContext (snd (setContextFromApiKey api s)) = apiContext s"
  | (resolved) "fst (setContextFromApiKey api s) = Inr ()"
      "contextLevel (apiContext (snd (setContextFromApiKey api s))) \<noteq> ApiContextLevel_WAIT_FOR_INIT"
      "permittedAccessLevel (apiContext (snd (setContextFromApiKey api s))) \<noteq> ApiKeyLevel_WAIT_FOR_INIT"
proof (cases "api (scopeRequests s)")
  case (Inl err)
  then show ?thesis using setContextFromApiKey_rejected [of api s err] failed by blast
next
  case (Inr r)
  show ?thesis
  proof (cases "organization_id r")
    case None
    then show ?thesis using Inr setContextFromApiKey_no_organization [of api s r] failed by blast
  next
    case (Some org)
    have "contextLevel (apiContext (snd (setContextFromApiKey api s))) \<noteq> ApiContextLevel_WAIT_FOR_INIT"
      using Inr Some setContextFromApiKey_organization(2) [of api s r org] by (simp split: option.splits)
    moreover have "permittedAccessLevel (apiContext (snd (setContextFromApiKey api s))) \<noteq> ApiKeyLevel_WAIT_FOR_INIT"
      using Inr Some setContextFromApiKey_organization(3) [of api s r org] by (simp split: option.splits)
    ultimately show ?thesis using Inr Some setContextFromApiKey_organization(1) [of api s r org] resolved by blast
  qed
qed

lemma ensureAccessLevel_compare_state [simp]: "snd (ensureAccessLevel_compare r s) = s"
  by (simp add: ensureAccessLevel_compare_def)

lemma ensureContext_compare_state [simp]: "snd (ensureContext_compare r s) = s"
  by (simp add: ensureContext_compare_def)

lemmas resolution_defs =
  setContextFromApiKey_def setContextFromApiKey_resume_def setContextFromApiKey_try_def
  setContextFromApiKey_catch_def setContextFromApiKey_request_def
  saveApiKeyAccessibleScope_def setOrganizationLevelContext_def setProjectLevelContext_def
  setEnvironmentLevelContext_def log_def Let_def

lemmas guard_defs =
  ensureAccessLevel_def ensureAccessLevel_compare_def ensureContext_def
  ensureContext_compare_def

lemmas input_defs =
  new_sdk_def new_ApiContext_def failing_api_def organization_only_def organization_api_def
  organization_environment_api_def environment_api_def flaky_api_def

lemma setContextFromApiKey_result:
  "fst (setContextFromApiKey api s) =
     (if resolves (api (scopeRequests s)) then Inr ()
      else Inl (PermitContextError CouldNotFetchScope))"
proof (cases "api (scopeRequests s)")
  case (Inl err)
  then show ?thesis
    using setContextFromApiKey_rejected(1) [of api s err] by (simp add: resolves_def)
next
  case (Inr r)
  then show ?thesis
    using setContextFromApiKey_no_organization(1) [of api s r]
      setContextFromApiKey_organization(1) [of api s r]
    by (cases "organization_id r") (auto simp: resolves_def)
qed

lemma setContextFromApiKey_unresolved_after:
  "unresolved s \<Longrightarrow>
   unresolved (snd (setContextFromApiKey api s)) = (\<not> resolves (api (scopeRequests s)))"
proof (cases "api (scopeRequests s)")
  case (Inl err)
  assume "unresolved s"
  then show ?thesis
    using Inl setContextFromApiKey_rejected(2) [of api s err]
    by (simp add: resolves_def unresolved_def)
next
  case (Inr r)
  assume u: "unresolved s"
  show ?thesis
  proof (cases "organization_id r")
    case None
    then show ?thesis
      using u Inr setContextFromApiKey_no_organization(2) [of api s r]
      by (simp add: resolves_def unresolved_def)
  next
    case (Some org)
    then show ?thesis
      using Inr setContextFromApiKey_organization(2,3) [of api s r org]
      by (simp add: resolves_def unresolved_def split: option.splits)
  qed
qed

lemma setContextFromApiKey_requests:
  "scopeRequests (snd (setContextFromApiKey api s)) = scopeRequests s + 1"
  by (simp add: resolution_defs split: sum.splits option.splits thrown.splits prod.splits)

lemma setContextFromApiKey_context_kept:
  "\<not> resolves (api (scopeRequests s)) \<Longrightarrow>
   apiContext (snd (setContextFromApiKey api s)) = apiContext s"
proof (cases "api (scopeRequests s)")
  case (Inl err)
  then show ?thesis using setContextFromApiKey_rejected(2) [of api s err] by simp
next
  case (Inr r)
  assume "\<not> resolves (api (scopeRequests s))"
  then have "organization_id r = None" using Inr by (simp add: resolves_def)
  then show ?thesis using Inr setContextFromApiKey_no_organization(2) [of api s r] by simp
qed

text \<open>What a guard call does, by cases on the state and on the outcome of its request.\<close>

lemma call_guard_resolved:
  "\<not> unresolved s \<Longrightarrow> call_guard api g s = compare_guard g s"
  by (cases g) (simp_all add: unresolved_def ensureAccessLevel_def ensureContext_def)

lemma compare_guard_state [simp]: "snd (compare_guard g s) = s"
  by (cases g) simp_all

lemma call_guard_unresolved_failed:
  assumes "unresolved s" and "\<not> resolves (api (scopeRequests s))"
  shows "call_guard api g s =
           (Inl (PermitContextError CouldNotFetchScope), snd (setContextFromApiKey api s))"
proof -
  have "fst (setContextFromApiKey api s) = Inl (PermitContextError CouldNotFetchScope)"
    using assms(2) by (simp add: setContextFromApiKey_result)
  then show ?thesis
    using assms(1)
    by (cases g; cases "setContextFromApiKey api s")
       (simp_all add: unresolved_def ensureAccessLevel_def ensureContext_def)
qed

lemma call_guard_unresolved_resolved:
  assumes "unresolved s" and "resolves (api (scopeRequests s))"
  shows "call_guard api g s = compare_guard g (snd (setContextFromApiKey api s))"
proof -
  have "fst (setContextFromApiKey api s) = Inr ()"
    using assms(2) by (simp add: setContextFromApiKey_result)
  then show ?thesis
    using assms(1)
    by (cases g; cases "setContextFromApiKey api s")
       (simp_all add: unresolved_def ensureAccessLevel_def ensureContext_def)
qed

lemma call_guard_requests:
  "scopeRequests (snd (call_guard api g s)) = scopeRequests s + (if unresolved s then 1 else 0)"
proof (cases "unresolved s")
  case False
  then show ?thesis by (simp add: call_guard_resolved)
next
  case True
  then show ?thesis
    by (cases "resolves (api (scopeRequests s))")
       (simp_all add: call_guard_unresolved_failed call_guard_unresolved_resolved
          setContextFromApiKey_requests)
qed

lemma call_guard_unresolved_after:
  "unresolved (snd (call_guard api g s)) = (unresolved s \<and> \<not> resolves (api (scopeRequests s)))"
proof (cases "unresolved s")
  case False
  then show ?thesis by (simp add: call_guard_resolved)
next
  case True
  then show ?thesis
    using setContextFromApiKey_unresolved_after [OF True, of api]
    by (cases "resolves (api (scopeRequests s))")
       (simp_all add: call_guard_unresolved_failed call_guard_unresolved_resolved)
qed

lemma run_guards_resolved: "\<not> unresolved s \<Longrightarrow> run_guards api gs s = s"
  by (induction gs) (simp_all add: call_guard_resolved)

lemma successfulLookups_Suc:
  "successfulLookups api (Suc n) = successfulLookups api n + (if resolves (api n) then 1 else 0)"
  by (simp add: successfulLookups_def)

lemma run_guards_successfulLookups:
  "(unresolved s \<longrightarrow> successfulLookups api (scopeRequests s) = 0) \<Longrightarrow>
   successfulLookups api (scopeRequests s) \<le> 1 \<Longrightarrow>
   successfulLookups api (scopeRequests (run_guards api gs s)) \<le> 1"
proof (induction gs arbitrary: s)
  case Nil
  then show ?case by simp
next
  case (Cons g gs)
  show ?case
  proof (cases "unresolved s")
    case False
    then show ?thesis using Cons.prems run_guards_resolved [of s api "g # gs"] by simp
  next
    case True
    let ?s1 = "snd (call_guard api g s)"
    have req: "scopeRequests ?s1 = Suc (scopeRequests s)"
      using True by (simp add: call_guard_requests)
    have zero: "successfulLookups api (scopeRequests s) = 0" using True Cons.prems by simp
    have a: "unresolved ?s1 \<longrightarrow> successfulLookups api (scopeRequests ?s1) = 0"
      using zero by (simp add: req successfulLookups_Suc call_guard_unresolved_after)
    have b: "successfulLookups api (scopeRequests ?s1) \<le> 1"
      using zero by (simp add: req successfulLookups_Suc)
    show ?thesis using Cons.IH [OF a b] by simp
  qed
qed


section \<open>The access-level guard\<close>

text \<open>
  Whenever the scope is resolved once \<^verbatim>\<open>ensureAccessLevel(required)\<close> is over, the call has
  thrown exactly when the required level stands before the permitted one in
  \<^verbatim>\<open>API_ACCESS_LEVELS\<close>. Which of the two levels is then the coarser one is decided by the
  order of that array alone; the proof does not look at its elements.
\<close>

lemma ensureAccessLevel_throws_iff_index_less:
  assumes call: "ensureAccessLevel api required s = (res, s')"
    and ctx: "contextLevel (apiContext s') \<noteq> ApiContextLevel_WAIT_FOR_INIT"
    and perm: "permittedAccessLevel (apiContext s') \<noteq> ApiKeyLevel_WAIT_FOR_INIT"
  shows "res = (if indexOf API_ACCESS_LEVELS required
                     < indexOf API_ACCESS_LEVELS (permittedAccessLevel (apiContext s'))
                then Inl (PermitContextError
                           (AccessLevelMismatch required (permittedAccessLevel (apiContext s'))))
                else Inr ())"
proof -
  have cmp: "ensureAccessLevel_compare required s' = (res, s')"
  proof (cases "contextLevel (apiContext s) = ApiContextLevel_WAIT_FOR_INIT
         \<or> permittedAccessLevel (apiContext s) = ApiKeyLevel_WAIT_FOR_INIT")
    case False
    then show ?thesis using call
      by (auto simp: ensureAccessLevel_def ensureAccessLevel_compare_def split: if_splits)
  next
    case True
    show ?thesis
    proof (cases rule: setContextFromApiKey_outcomes [of api s])
      case failed
      then have "s' = snd (setContextFromApiKey api s)"
        using call True by (auto simp: ensureAccessLevel_def split: prod.splits sum.splits)
      then show ?thesis using failed True ctx perm by auto
    next
      case resolved
      then show ?thesis using call True
        by (auto simp: ensureAccessLevel_def ensureAccessLevel_compare_def
            split: prod.splits sum.splits if_splits)
    qed
  qed
  then show ?thesis
    by (auto simp: ensureAccessLevel_compare_def split: if_splits)
qed

section \<open>The context guard\<close>



section \<open>Context resolution from the scope response\<close>

text \<open>
  Claim C3. When the scope request is answered, \<^verbatim>\<open>setContextFromApiKey\<close> sets the context
  level to ENVIRONMENT when \<^verbatim>\<open>organization_id\<close>, \<^verbatim>\<open>project_id\<close> and \<^verbatim>\<open>environment_id\<close> are
  all present, to PROJECT when the first two are present and \<^verbatim>\<open>environment_id\<close> is not, to
  ORGANIZATION when only \<^verbatim>\<open>organization_id\<close> is present, and throws a \<^verbatim>\<open>PermitContextError\<close>
  when \<^verbatim>\<open>organization_id\<close> is absent. After an answer with \<^verbatim>\<open>organization_id\<close> alone, a
  following \<^verbatim>\<open>ensureContext(PROJECT)\<close> throws, whatever the endpoint would answer then.
\<close>

theorem setContextFromApiKey_level_from_identifiers:
  assumes "api (scopeRequests s) = Inr r"
    and "setContextFromApiKey api s = (res, s')"
  shows "(organization_id r \<noteq> None \<and> project_id r \<noteq> None \<and> environment_id r \<noteq> None
            \<longrightarrow> res = Inr () \<and> contextLevel (apiContext s') = ApiContextLevel_ENVIRONMENT)
       \<and> (organization_id r \<noteq> None \<and> project_id r \<noteq> None \<and> environment_id r = None
            \<longrightarrow> res = Inr () \<and> contextLevel (apiContext s') = ApiContextLevel_PROJECT)
       \<and> (organization_id r \<noteq> None \<and> project_id r = None \<and> environment_id r = None
            \<longrightarrow> res = Inr () \<and> contextLevel (apiContext s') = ApiContextLevel_ORGANIZATION
                \<and> ensureContext api' ApiContextLevel_PROJECT s'
                    = (Inl (PermitContextError
                             (LessSpecificContext ApiContextLevel_PROJECT
                                ApiContextLevel_ORGANIZATION)), s'))
       \<and> (organization_id r = None
            \<longrightarrow> res = Inl (PermitContextError CouldNotFetchScope))"
proof (cases "organization_id r")
  case None
  then show ?thesis
    using assms setContextFromApiKey_no_organization(1) [of api s r] by simp
next
  case (Some org)
  have res: "res = Inr ()"
    using assms Some setContextFromApiKey_organization(1) [of api s r org] by simp
  have lvl: "contextLevel (apiContext s') =
          (case project_id r of
             None \<Rightarrow> ApiContextLevel_ORGANIZATION
           | Some p \<Rightarrow> (case environment_id r of
                          None \<Rightarrow> ApiContextLevel_PROJECT
                        | Some e \<Rightarrow> ApiContextLevel_ENVIRONMENT))"
    using assms Some setContextFromApiKey_organization(2) [of api s r org] by simp
  have perm: "permittedAccessLevel (apiContext s') \<noteq> ApiKeyLevel_WAIT_FOR_INIT"
    using assms Some setContextFromApiKey_organization(3) [of api s r org]
    by (simp split: option.splits)
  have "ensureContext api' ApiContextLevel_PROJECT s'
          = (Inl (PermitContextError
                   (LessSpecificContext ApiContextLevel_PROJECT ApiContextLevel_ORGANIZATION)), s')"
    if "project_id r = None"
    using that lvl perm by (simp add: ensureContext_def ensureContext_compare_def)
  then show ?thesis using Some res lvl by auto
qed

theorem setContextFromApiKey_level_from_identifiers_witness:
  "contextLevel (apiContext (snd (setContextFromApiKey organization_api new_sdk)))
     = ApiContextLevel_ORGANIZATION
   \<and> fst (ensureContext failing_api ApiContextLevel_PROJECT
            (snd (setContextFromApiKey organization_api new_sdk)))
     = Inl (PermitContextError
              (LessSpecificContext ApiContextLevel_PROJECT ApiContextLevel_ORGANIZATION))"
proof -
  have resp: "organization_api (scopeRequests new_sdk) = Inr organization_only"
    by (simp add: organization_api_def)
  have run: "setContextFromApiKey organization_api new_sdk
      = (fst (setContextFromApiKey organization_api new_sdk),
         snd (setContextFromApiKey organization_api new_sdk))"
    by simp
  show ?thesis
    using setContextFromApiKey_level_from_identifiers [OF resp run, of failing_api]
    by (simp add: organization_only_def)
qed

section \<open>How often the scope is looked up\<close>

text \<open>
  Claim C4. In a sequential execution a guard call issues a scope request exactly when the
  context level or the permitted access level is still \<^verbatim>\<open>WAIT_FOR_INIT\<close>; once a call has
  left the scope resolved, no later sequence of guard calls issues another request; and over
  the lifetime of a fresh SDK at most one request is a successful lookup.
\<close>

theorem lookup_only_while_unresolved:
  "scopeRequests (snd (call_guard api g s)) = scopeRequests s + (if unresolved s then 1 else 0)
   \<and> (\<not> unresolved (snd (call_guard api g s))
        \<longrightarrow> scopeRequests (run_guards api gs (snd (call_guard api g s)))
              = scopeRequests (snd (call_guard api g s)))
   \<and> successfulLookups api (scopeRequests (run_guards api gs new_sdk)) \<le> 1"
proof -
  have "successfulLookups api (scopeRequests (run_guards api gs new_sdk)) \<le> 1"
    by (rule run_guards_successfulLookups) (simp_all add: new_sdk_def successfulLookups_def)
  then show ?thesis
    by (simp add: call_guard_requests run_guards_resolved)
qed

theorem lookup_only_while_unresolved_witness:
  "\<not> unresolved (snd (call_guard flaky_api (EnsureContext ApiContextLevel_ORGANIZATION)
                        (snd (call_guard flaky_api (EnsureAccessLevel ApiKeyLevel_PROJECT) new_sdk))))
   \<and> scopeRequests
        (run_guards flaky_api
           [EnsureAccessLevel ApiKeyLevel_PROJECT, EnsureContext ApiContextLevel_ORGANIZATION,
            EnsureContext ApiContextLevel_PROJECT, EnsureAccessLevel ApiKeyLevel_ENVIRONMENT]
           new_sdk) = 2"
proof -
  let ?s1 = "snd (call_guard flaky_api (EnsureAccessLevel ApiKeyLevel_PROJECT) new_sdk)"
  have u0: "unresolved new_sdk" and r0: "scopeRequests new_sdk = 0"
    by (simp_all add: unresolved_def input_defs)
  have s1: "unresolved ?s1 \<and> scopeRequests ?s1 = 1"
    using u0 r0
      call_guard_unresolved_after [of flaky_api "EnsureAccessLevel ApiKeyLevel_PROJECT" new_sdk]
      call_guard_requests [of flaky_api "EnsureAccessLevel ApiKeyLevel_PROJECT" new_sdk]
    by (simp add: resolves_def flaky_api_def del: call_guard.simps)
  have s2: "\<not> unresolved (snd (call_guard flaky_api (EnsureContext ApiContextLevel_ORGANIZATION) ?s1))"
    using s1
      call_guard_unresolved_after [of flaky_api "EnsureContext ApiContextLevel_ORGANIZATION" ?s1]
    by (simp add: resolves_def flaky_api_def organization_only_def del: call_guard.simps)
  have s2r: "scopeRequests (snd (call_guard flaky_api (EnsureContext ApiContextLevel_ORGANIZATION) ?s1)) = 2"
    using s1
      call_guard_requests [of flaky_api "EnsureContext ApiContextLevel_ORGANIZATION" ?s1]
    by (simp del: call_guard.simps)
  show ?thesis
    using s2 s2r
      lookup_only_while_unresolved [of flaky_api "EnsureContext ApiContextLevel_ORGANIZATION" ?s1
        "[EnsureContext ApiContextLevel_PROJECT, EnsureAccessLevel ApiKeyLevel_ENVIRONMENT]"]
    by (simp del: call_guard.simps)
qed

text \<open>
  Claim C5. When the scope is unresolved and the scope request fails, either guard throws a
  \<^verbatim>\<open>PermitContextError\<close> and leaves the API context as it was, hence still unresolved; the
  next call to either guard issues a new request, and whether the scope is resolved after it
  depends on the outcome of that new request alone.
\<close>

theorem failed_lookup_is_retried:
  assumes "unresolved s" and "api (scopeRequests s) = Inl err"
  shows "fst (call_guard api g s) = Inl (PermitContextError CouldNotFetchScope)
       \<and> apiContext (snd (call_guard api g s)) = apiContext s
       \<and> unresolved (snd (call_guard api g s))
       \<and> scopeRequests (snd (call_guard api g s)) = scopeRequests s + 1
       \<and> scopeRequests (snd (call_guard api g' (snd (call_guard api g s)))) = scopeRequests s + 2
       \<and> unresolved (snd (call_guard api g' (snd (call_guard api g s))))
           = (\<not> resolves (api (scopeRequests s + 1)))"
proof -
  have nr: "\<not> resolves (api (scopeRequests s))" using assms(2) by (simp add: resolves_def)
  have cg: "call_guard api g s =
      (Inl (PermitContextError CouldNotFetchScope), snd (setContextFromApiKey api s))"
    using assms(1) nr call_guard_unresolved_failed [of s api g] by blast
  have ctx: "apiContext (snd (call_guard api g s)) = apiContext s"
    using cg nr by (simp add: setContextFromApiKey_context_kept)
  have u: "unresolved (snd (call_guard api g s))"
    using assms(1) nr by (simp add: call_guard_unresolved_after)
  have req: "scopeRequests (snd (call_guard api g s)) = scopeRequests s + 1"
    using assms(1) by (simp add: call_guard_requests)
  show ?thesis
    using cg ctx u req by (simp add: call_guard_requests call_guard_unresolved_after)
qed

theorem failed_lookup_is_retried_witness:
  "fst (call_guard flaky_api (EnsureAccessLevel ApiKeyLevel_PROJECT) new_sdk)
     = Inl (PermitContextError CouldNotFetchScope)
   \<and> apiContext (snd (call_guard flaky_api (EnsureAccessLevel ApiKeyLevel_PROJECT) new_sdk))
     = new_ApiContext
   \<and> scopeRequests
        (snd (call_guard flaky_api (EnsureContext ApiContextLevel_ORGANIZATION)
                (snd (call_guard flaky_api (EnsureAccessLevel ApiKeyLevel_PROJECT) new_sdk)))) = 2
   \<and> \<not> unresolved
        (snd (call_guard flaky_api (EnsureContext ApiContextLevel_ORGANIZATION)
                (snd (call_guard flaky_api (EnsureAccessLevel ApiKeyLevel_PROJECT) new_sdk))))"
proof -
  have u: "unresolved new_sdk" by (simp add: unresolved_def input_defs)
  have f: "flaky_api (scopeRequests new_sdk) = Inl (OtherError ''ECONNRESET'')"
    by (simp add: input_defs)
  show ?thesis
    using u f
      failed_lookup_is_retried [of new_sdk flaky_api "OtherError ''ECONNRESET''"
        "EnsureAccessLevel ApiKeyLevel_PROJECT" "EnsureContext ApiContextLevel_ORGANIZATION"]
    by (simp add: input_defs resolves_def del: call_guard.simps)
qed

text \<open>
  Claim C8. \<^verbatim>\<open>setContextFromApiKey\<close> either returns normally or throws the
  \<^verbatim>\<open>PermitContextError\<close> of its \<^verbatim>\<open>catch\<close> block, both when the request fails and when the
  answer has no \<^verbatim>\<open>organization_id\<close>; each guard either returns normally or throws a
  \<^verbatim>\<open>PermitContextError\<close>, so the error of the request itself never reaches the caller.
\<close>

theorem resolution_throws_only_context_errors:
  "fst (setContextFromApiKey api s) =
     (if resolves (api (scopeRequests s)) then Inr ()
      else Inl (PermitContextError CouldNotFetchScope))
   \<and> (fst (call_guard api g s) = Inr () \<or> throws_ContextError (fst (call_guard api g s)))"
proof -
  have "fst (call_guard api g s) = Inr () \<or> throws_ContextError (fst (call_guard api g s))"
  proof (cases "unresolved s \<and> \<not> resolves (api (scopeRequests s))")
    case True
    then show ?thesis using call_guard_unresolved_failed [of s api g] by simp
  next
    case False
    then have "call_guard api g s = compare_guard g s
        \<or> call_guard api g s = compare_guard g (snd (setContextFromApiKey api s))"
      using call_guard_resolved [of s api g] call_guard_unresolved_resolved [of s api g]
      by blast
    moreover have "fst (compare_guard g t) = Inr () \<or> throws_ContextError (fst (compare_guard g t))"
      for t
      by (cases g) (simp_all add: ensureAccessLevel_compare_def ensureContext_compare_def)
    ultimately show ?thesis by metis
  qed
  then show ?thesis by (simp add: setContextFromApiKey_result)
qed

theorem resolution_throws_only_context_errors_witness:
  "fst (setContextFromApiKey failing_api new_sdk) = Inl (PermitContextError CouldNotFetchScope)
   \<and> throws_ContextError (fst (call_guard failing_api (EnsureContext ApiContextLevel_PROJECT) new_sdk))"
proof -
  have "fst (call_guard failing_api (EnsureContext ApiContextLevel_PROJECT) new_sdk) \<noteq> Inr ()"
    by (simp add: guard_defs resolution_defs input_defs)
  then show ?thesis
    using resolution_throws_only_context_errors
      [of failing_api new_sdk "EnsureContext ApiContextLevel_PROJECT"]
    by (simp add: resolves_def input_defs)
qed

text \<open>
  Claim C9. When the answer carries \<^verbatim>\<open>organization_id\<close>, the context level set is the one
  numbered by the longest fully present prefix of organization, project, environment; in
  particular without \<^verbatim>\<open>project_id\<close> the level is ORGANIZATION, whether or not
  \<^verbatim>\<open>environment_id\<close> is present.
\<close>

theorem context_level_is_present_prefix:
  assumes "api (scopeRequests s) = Inr r" and "organization_id r \<noteq> None"
  shows "ApiContextLevel_value (contextLevel (apiContext (snd (setContextFromApiKey api s))))
           = present_prefix r
       \<and> (project_id r = None
            \<longrightarrow> contextLevel (apiContext (snd (setContextFromApiKey api s)))
                  = ApiContextLevel_ORGANIZATION)"
proof -
  obtain org where org: "organization_id r = Some org" using assms(2) by auto
  show ?thesis
    using assms(1) org setContextFromApiKey_organization(2) [of api s r org]
    by (auto simp: present_prefix_def split: option.splits)
qed

theorem context_level_is_present_prefix_witness:
  "contextLevel (apiContext (snd (setContextFromApiKey organization_environment_api new_sdk)))
     = ApiContextLevel_ORGANIZATION"
proof -
  have resp: "organization_environment_api (scopeRequests new_sdk)
      = Inr \<lparr> organization_id = Some ''org'', project_id = None, environment_id = Some ''env'' \<rparr>"
    by (simp add: organization_environment_api_def)
  show ?thesis
    using resp
      context_level_is_present_prefix [of organization_environment_api new_sdk
        "\<lparr> organization_id = Some ''org'', project_id = None, environment_id = Some ''env'' \<rparr>"]
    by simp
qed

section \<open>Callers in flight together\<close>

lemma setContextFromApiKey_request_simps [simp]:
  "scopeRequests (setContextFromApiKey_request s) = scopeRequests s + 1"
  "apiContext (setContextFromApiKey_request s) = apiContext s"
  by (simp_all add: setContextFromApiKey_request_def log_def)

lemma setContextFromApiKey_resume_requests [simp]:
  "scopeRequests (snd (setContextFromApiKey_resume outcome s)) = scopeRequests s"
  by (simp add: setContextFromApiKey_resume_def setContextFromApiKey_try_def
      setContextFromApiKey_catch_def log_def Let_def
      split: sum.splits option.splits thrown.splits prod.splits)

lemma setContextFromApiKey_resume_requestsD:
  "setContextFromApiKey_resume outcome s = (r, s') \<Longrightarrow> scopeRequests s' = scopeRequests s"
  using setContextFromApiKey_resume_requests [of outcome s] by simp

lemma step_first_pending:
  assumes "unresolved s"
  shows "step api (length pre) \<lparr> shared = s, tasks = pre @ NotStarted g # rest \<rparr>
       = \<lparr> shared = setContextFromApiKey_request s,
           tasks = (pre @ [AwaitingScope g (scopeRequests s)]) @ rest \<rparr>"
  using assms by (simp add: step_def unresolved_def)

lemma start_all:
  "unresolved s \<Longrightarrow>
   scopeRequests (shared (run_schedule api [length pre..<length pre + length calls]
       \<lparr> shared = s, tasks = pre @ map NotStarted calls \<rparr>)) = scopeRequests s + length calls
   \<and> apiContext (shared (run_schedule api [length pre..<length pre + length calls]
       \<lparr> shared = s, tasks = pre @ map NotStarted calls \<rparr>)) = apiContext s
   \<and> tasks (run_schedule api [length pre..<length pre + length calls]
       \<lparr> shared = s, tasks = pre @ map NotStarted calls \<rparr>)
       = pre @ awaiting calls (scopeRequests s)"
proof (induction calls arbitrary: s pre)
  case Nil
  then show ?case by (simp add: awaiting_def)
next
  case (Cons g gs)
  let ?s1 = "setContextFromApiKey_request s"
  let ?pre1 = "pre @ [AwaitingScope g (scopeRequests s)]"
  have u1: "unresolved ?s1" using Cons.prems by (simp add: unresolved_def)
  have sched: "[length pre..<length pre + length (g # gs)]
      = length pre # [length ?pre1..<length ?pre1 + length gs]"
    by (simp add: upt_conv_Cons del: upt_Suc)
  have run: "run_schedule api [length pre..<length pre + length (g # gs)]
        \<lparr> shared = s, tasks = pre @ map NotStarted (g # gs) \<rparr>
      = run_schedule api [length ?pre1..<length ?pre1 + length gs]
        \<lparr> shared = ?s1, tasks = ?pre1 @ map NotStarted gs \<rparr>"
    using step_first_pending [OF Cons.prems, of api pre g "map NotStarted gs"]
    by (simp only: sched run_schedule.simps list.map)
  have aw: "awaiting (g # gs) (scopeRequests s)
      = AwaitingScope g (scopeRequests s) # awaiting gs (scopeRequests s + 1)"
    by (simp add: awaiting_def upt_conv_Cons del: upt_Suc)
  show ?case
    using Cons.IH [OF u1, of ?pre1] by (simp only: run aw) simp
qed

lemma step_started_requests:
  assumes "\<forall>t \<in> set (tasks sys). started t"
  shows "scopeRequests (shared (step api i sys)) = scopeRequests (shared sys)
       \<and> (\<forall>t \<in> set (tasks (step api i sys)). started t)"
proof (cases "i < length (tasks sys)")
  case False
  then show ?thesis using assms by (simp add: step_def)
next
  case True
  then have st: "started (tasks sys ! i)" using assms by simp
  have "scopeRequests (snd (step_task api (tasks sys ! i) (shared sys))) = scopeRequests (shared sys)
      \<and> started (fst (step_task api (tasks sys ! i) (shared sys)))"
    using st
    by (cases "tasks sys ! i")
       (auto split: prod.splits sum.splits dest: setContextFromApiKey_resume_requestsD)
  then show ?thesis
    using True assms
    by (auto simp: step_def split: prod.splits dest!: set_update_subset_insert [THEN subsetD])
qed

lemma run_started_requests:
  "\<forall>t \<in> set (tasks sys). started t \<Longrightarrow>
   scopeRequests (shared (run_schedule api sched sys)) = scopeRequests (shared sys)"
proof (induction sched arbitrary: sys)
  case Nil
  then show ?case by simp
next
  case (Cons i sched)
  then show ?case using step_started_requests [of sys api i] by simp
qed

lemma run_schedule_append:
  "run_schedule api (xs @ ys) sys = run_schedule api ys (run_schedule api xs sys)"
  by (induction xs arbitrary: sys) simp_all

lemma awaiting_nth:
  "i < length calls \<Longrightarrow> awaiting calls n ! i = AwaitingScope (calls ! i) (n + i)"
  by (simp add: awaiting_def)

text \<open>
  A caller alone, run through its three steps, does what the sequential definitions of the
  guards say.
\<close>

lemma lone_caller_is_call_guard:
  "tasks (run_schedule api [0, 0, 0] (spawn [g] s)) = [Settled (fst (call_guard api g s))]
   \<and> shared (run_schedule api [0, 0, 0] (spawn [g] s)) = snd (call_guard api g s)"
proof (cases "unresolved s")
  case False
  then show ?thesis
    by (simp add: call_guard_resolved spawn_def step_def unresolved_def)
next
  case True
  have first: "step api 0 (spawn [g] s)
      = \<lparr> shared = setContextFromApiKey_request s,
          tasks = [AwaitingScope g (scopeRequests s)] \<rparr>"
    using True by (simp add: spawn_def step_def unresolved_def)
  have second: "step api 0 \<lparr> shared = setContextFromApiKey_request s,
          tasks = [AwaitingScope g (scopeRequests s)] \<rparr>
      = \<lparr> shared = snd (setContextFromApiKey api s),
          tasks = [Resuming g (fst (setContextFromApiKey api s))] \<rparr>"
    by (simp add: step_def setContextFromApiKey_def split: prod.splits)
  show ?thesis
  proof (cases "resolves (api (scopeRequests s))")
    case False
    have res: "fst (setContextFromApiKey api s) = Inl (PermitContextError CouldNotFetchScope)"
      using False by (simp add: setContextFromApiKey_result)
    have third: "step api 0 \<lparr> shared = snd (setContextFromApiKey api s),
            tasks = [Resuming g (fst (setContextFromApiKey api s))] \<rparr>
        = \<lparr> shared = snd (setContextFromApiKey api s),
            tasks = [Settled (Inl (PermitContextError CouldNotFetchScope))] \<rparr>"
      by (simp add: step_def res)
    have "call_guard api g s
        = (Inl (PermitContextError CouldNotFetchScope), snd (setContextFromApiKey api s))"
      using True False call_guard_unresolved_failed [of s api g] by blast
    then show ?thesis
      by (simp only: run_schedule.simps first second third) simp
  next
    case r: True
    have res: "fst (setContextFromApiKey api s) = Inr ()"
      using r by (simp add: setContextFromApiKey_result)
    have third: "step api 0 \<lparr> shared = snd (setContextFromApiKey api s),
            tasks = [Resuming g (fst (setContextFromApiKey api s))] \<rparr>
        = \<lparr> shared = snd (setContextFromApiKey api s),
            tasks = [Settled (fst (compare_guard g (snd (setContextFromApiKey api s))))] \<rparr>"
      by (simp add: step_def res)
    have "call_guard api g s = compare_guard g (snd (setContextFromApiKey api s))"
      using True r call_guard_unresolved_resolved [of s api g] by blast
    then show ?thesis
      by (simp only: run_schedule.simps first second third) simp
  qed
qed

text \<open>
  Claim C6 fails on the code. The claim asks that N callers which trigger context resolution
  before the first resolution completes cause exactly one scope request, whose result all of
  them share. What the code does: when the scope is unresolved and N callers start before any
  answer arrives, every caller issues a request of its own, N in all, and is suspended on
  that request; the number of requests stays N however the answers are delivered; and the
  caller that is resumed first applies the answer to its own request to the shared context.
\<close>

theorem concurrent_callers_each_look_up:
  assumes "unresolved s"
  shows "scopeRequests (shared (run_schedule api [0..<length calls] (spawn calls s)))
           = scopeRequests s + length calls
       \<and> tasks (run_schedule api [0..<length calls] (spawn calls s))
           = awaiting calls (scopeRequests s)
       \<and> scopeRequests (shared (run_schedule api ([0..<length calls] @ deliveries) (spawn calls s)))
           = scopeRequests s + length calls
       \<and> (i < length calls \<longrightarrow>
            shared (step api i (run_schedule api [0..<length calls] (spawn calls s)))
              = snd (setContextFromApiKey_resume (api (scopeRequests s + i))
                       (shared (run_schedule api [0..<length calls] (spawn calls s))))
            \<and> tasks (step api i (run_schedule api [0..<length calls] (spawn calls s))) ! i
              = Resuming (calls ! i)
                  (fst (setContextFromApiKey_resume (api (scopeRequests s + i))
                          (shared (run_schedule api [0..<length calls] (spawn calls s))))))"
proof -
  let ?sys = "run_schedule api [0..<length calls] (spawn calls s)"
  have a: "scopeRequests (shared ?sys) = scopeRequests s + length calls"
    and t: "tasks ?sys = awaiting calls (scopeRequests s)"
    using start_all [OF assms, of api "[]" calls] by (simp_all add: spawn_def)
  have "\<forall>t \<in> set (tasks ?sys). started t"
    using t by (auto simp: awaiting_def)
  then have "scopeRequests (shared (run_schedule api deliveries ?sys)) = scopeRequests (shared ?sys)"
    by (rule run_started_requests)
  then have d: "scopeRequests (shared (run_schedule api ([0..<length calls] @ deliveries)
      (spawn calls s))) = scopeRequests s + length calls"
    using a by (simp add: run_schedule_append)
  have r: "shared (step api i ?sys)
        = snd (setContextFromApiKey_resume (api (scopeRequests s + i)) (shared ?sys))
      \<and> tasks (step api i ?sys) ! i
        = Resuming (calls ! i)
            (fst (setContextFromApiKey_resume (api (scopeRequests s + i)) (shared ?sys)))"
    if "i < length calls"
  proof -
    have len: "i < length (tasks ?sys)" using that t by (simp add: awaiting_def)
    have nth: "tasks ?sys ! i = AwaitingScope (calls ! i) (scopeRequests s + i)"
      using that t by (simp add: awaiting_nth)
    show ?thesis
      using len nth by (simp add: step_def split: prod.splits)
  qed
  show ?thesis using a t d r by blast
qed

theorem concurrent_callers_each_look_up_witness:
  "scopeRequests (shared (run_schedule organization_api [0, 1, 0, 1, 0, 1]
      (spawn [EnsureContext ApiContextLevel_ORGANIZATION,
              EnsureContext ApiContextLevel_ORGANIZATION] new_sdk))) = 2"
proof -
  have u: "unresolved new_sdk" by (simp add: unresolved_def input_defs)
  have z: "scopeRequests new_sdk = 0" by (simp add: new_sdk_def)
  have "scopeRequests (shared (run_schedule organization_api
      ([0..<length [EnsureContext ApiContextLevel_ORGANIZATION,
                    EnsureContext ApiContextLevel_ORGANIZATION]] @ [0, 1, 0, 1])
      (spawn [EnsureContext ApiContextLevel_ORGANIZATION,
              EnsureContext ApiContextLevel_ORGANIZATION] new_sdk)))
      = scopeRequests new_sdk
        + length [EnsureContext ApiContextLevel_ORGANIZATION,
                  EnsureContext ApiContextLevel_ORGANIZATION]"
    using concurrent_callers_each_look_up [OF u, of organization_api
        "[EnsureContext ApiContextLevel_ORGANIZATION,
          EnsureContext ApiContextLevel_ORGANIZATION]" "[0, 1, 0, 1]" 0]
    by blast
  then show ?thesis by (simp add: z)
qed

text \<open>
  The run of two callers in full: both start, both answers arrive, both guards resume. Two
  requests have been issued and both callers return normally.
\<close>

lemma two_callers_two_requests:
  "scopeRequests (shared (run_schedule organization_api [0, 1, 0, 1, 0, 1]
      (spawn [EnsureContext ApiContextLevel_ORGANIZATION,
              EnsureContext ApiContextLevel_ORGANIZATION] new_sdk))) = 2
   \<and> tasks (run_schedule organization_api [0, 1, 0, 1, 0, 1]
      (spawn [EnsureContext ApiContextLevel_ORGANIZATION,
              EnsureContext ApiContextLevel_ORGANIZATION] new_sdk))
     = [Settled (Inr ()), Settled (Inr ())]"
  by (simp add: spawn_def step_def guard_defs resolution_defs input_defs)

text \<open>
  A guard compares against the context it finds when it resumes, not against the answer to
  its own request: the first caller below was answered with an organization alone, yet its
  \<^verbatim>\<open>ensureContext(PROJECT)\<close> returns normally, because the second caller's answer has been
  applied in between. Resumed before that, it throws.
\<close>

lemma guard_compares_with_latest_resolution:
  "tasks (run_schedule mixed_api [0, 1, 0, 1, 0, 1]
      (spawn [EnsureContext ApiContextLevel_PROJECT,
              EnsureContext ApiContextLevel_PROJECT] new_sdk))
     = [Settled (Inr ()), Settled (Inr ())]
   \<and> tasks (run_schedule mixed_api [0, 1, 0, 0, 1, 1]
      (spawn [EnsureContext ApiContextLevel_PROJECT,
              EnsureContext ApiContextLevel_PROJECT] new_sdk))
     = [Settled (Inl (PermitContextError
                       (LessSpecificContext ApiContextLevel_PROJECT
                          ApiContextLevel_ORGANIZATION))),
        Settled (Inr ())]"
  by (simp add: spawn_def step_def guard_defs resolution_defs input_defs mixed_api_def)

section \<open>The ready event\<close>

lemma client_step_emitted [simp]: "emitted (client_step x c) = emitted c"
  by (cases x) (simp_all split: prod.splits)








section \<open>Embedded login\<close>

text \<open>
  Claim C10. On a successful remote call \<^verbatim>\<open>loginAs\<close> returns the response body with its
  \<^verbatim>\<open>content\<close> property set to an object whose \<^verbatim>\<open>url\<close> is the \<^verbatim>\<open>redirect_url\<close> of that same
  body; on a failed call it throws the very error it caught, having logged it when it is an
  axios error.
\<close>

theorem loginAs_augments_or_rethrows:
  "(authApi userId tenantId = Inr response \<longrightarrow>
      (case fst (loginAs authApi userId tenantId lg) of
         Inr res \<Rightarrow>
           res ''content''
             = Some (JObject [(''url'', get_property (response_data response) ''redirect_url'')])
           \<and> (\<forall>k. k \<noteq> ''content'' \<longrightarrow> res k = response_data response k)
       | Inl e \<Rightarrow> False))
   \<and> (authApi userId tenantId = Inl err \<longrightarrow>
        fst (loginAs authApi userId tenantId lg) = Inl err
        \<and> snd (loginAs authApi userId tenantId lg)
            = (case err of
                 AxiosError status data \<Rightarrow> lg @ [Error_loginAs status userId data]
               | _ \<Rightarrow> lg))"
proof (intro conjI impI)
  assume ok: "authApi userId tenantId = Inr response"
  let ?res = "(response_data response)
      (''content'' \<mapsto> JObject [(''url'', get_property (response_data response) ''redirect_url'')])"
  have "fst (loginAs authApi userId tenantId lg) = Inr ?res"
    using ok by (simp add: loginAs_def Let_def)
  then show "case fst (loginAs authApi userId tenantId lg) of
      Inr res \<Rightarrow>
        res ''content''
          = Some (JObject [(''url'', get_property (response_data response) ''redirect_url'')])
        \<and> (\<forall>k. k \<noteq> ''content'' \<longrightarrow> res k = response_data response k)
    | Inl e \<Rightarrow> False"
    by simp
next
  assume bad: "authApi userId tenantId = Inl err"
  then show "fst (loginAs authApi userId tenantId lg) = Inl err"
    by (simp add: loginAs_def)
  show "snd (loginAs authApi userId tenantId lg)
      = (case err of
           AxiosError status data \<Rightarrow> lg @ [Error_loginAs status userId data]
         | _ \<Rightarrow> lg)"
    using bad by (cases err) (simp_all add: loginAs_def)
qed

theorem loginAs_augments_or_rethrows_witness:
  "(case fst (loginAs login_ok_api ''u'' ''t'' []) of
      Inr res \<Rightarrow>
        res ''content'' = Some (JObject [(''url'', JString ''https://x'')])
        \<and> res ''redirect_url'' = Some (JString ''https://x'')
        \<and> res ''token'' = Some (JString ''t'')
    | Inl err \<Rightarrow> False)
   \<and> loginAs login_failing_api ''u'' ''t'' []
       = (Inl (AxiosError (Some 404) ''not found''),
          [Error_loginAs (Some 404) ''u'' ''not found''])"
proof -
  let ?response = "\<lparr> response_status = 200,
      response_data = [''redirect_url'' \<mapsto> JString ''https://x'', ''token'' \<mapsto> JString ''t''] \<rparr>"
  have ok: "login_ok_api ''u'' ''t'' = Inr ?response"
    by (simp add: login_ok_api_def)
  have bad: "login_failing_api ''u'' ''t'' = Inl (AxiosError (Some 404) ''not found'')"
    by (simp add: login_failing_api_def)
  have first: "case fst (loginAs login_ok_api ''u'' ''t'' []) of
      Inr res \<Rightarrow>
        res ''content'' = Some (JObject [(''url'', JString ''https://x'')])
        \<and> res ''redirect_url'' = Some (JString ''https://x'')
        \<and> res ''token'' = Some (JString ''t'')
    | Inl err \<Rightarrow> False"
    using ok
      loginAs_augments_or_rethrows [of login_ok_api "''u''" "''t''" ?response "[]"]
    by (auto simp: get_property_def split: sum.splits)
  have second: "loginAs login_failing_api ''u'' ''t'' []
       = (Inl (AxiosError (Some 404) ''not found''),
          [Error_loginAs (Some 404) ''u'' ''not found''])"
    using bad
      loginAs_augments_or_rethrows [of login_failing_api "''u''" "''t''" _ "[]"
        "AxiosError (Some 404) ''not found''"]
    by (simp add: prod_eq_iff)
  show ?thesis using first second by (rule conjI)
qed

end
